theory Spec2Isabelle
  imports Main "HOL-Library.Multiset"
begin

section \<open>Strings and the string built-ins that App.js calls\<close>

text \<open>
  A JavaScript string is a sequence of UTF-16 code units. A code unit is modelled as a
  natural number (its numeric value); no function of App.js does arithmetic on code
  units, so no wrap-around is involved. \<open>js\<close> embeds an ASCII literal.
\<close>

type_synonym jschar = nat
type_synonym jsstring = "jschar list"

definition js :: "string \<Rightarrow> jsstring" where
  "js s = map of_char s"

text \<open>
  ECMAScript's WhiteSpace and LineTerminator code points: the characters that the regular
  expression class \<^verbatim>\<open>\s\<close> matches and that \<^verbatim>\<open>String.prototype.trim\<close> strips (TAB, LF,
  VT, FF, CR, SPACE, NBSP, U+1680, U+2000..U+200A, LS, PS, U+202F, U+205F, U+3000, BOM).
\<close>

definition isWhiteSpace :: "jschar \<Rightarrow> bool" where
  "isWhiteSpace c \<longleftrightarrow>
     c = 0x9 \<or> c = 0xA \<or> c = 0xB \<or> c = 0xC \<or> c = 0xD \<or> c = 0x20 \<or> c = 0xA0 \<or>
     c = 0x1680 \<or> (0x2000 \<le> c \<and> c \<le> 0x200A) \<or> c = 0x2028 \<or> c = 0x2029 \<or>
     c = 0x202F \<or> c = 0x205F \<or> c = 0x3000 \<or> c = 0xFEFF"

text \<open>\<^verbatim>\<open>s.trim()\<close>: white space removed from both ends.\<close>

definition trim :: "jsstring \<Rightarrow> jsstring" where
  "trim s = rev (dropWhile isWhiteSpace (rev (dropWhile isWhiteSpace s)))"

text \<open>
  \<^verbatim>\<open>s.split(sep)\<close> for a separator of one code unit: the pieces between the occurrences
  of the separator, empty pieces kept, so that the empty string gives one empty piece.
\<close>

fun split :: "jschar \<Rightarrow> jsstring \<Rightarrow> jsstring list" where
  "split sep [] = [[]]"
| "split sep (c # cs) =
     (if c = sep then [] # split sep cs
      else (case split sep cs of
              [] \<Rightarrow> [[c]]
            | piece # pieces \<Rightarrow> (c # piece) # pieces))"

text \<open>
  \<^verbatim>\<open>s.toLocaleLowerCase('tr')\<close> is a built-in of the runtime, not code of the
  repository. It is modelled code unit by code unit on the alphabets of the word bank
  (English and Turkish): in the Turkish locale capital I (U+0049) becomes dotless
  i (U+0131) and capital I with dot above (U+0130) becomes i (U+0069); the other capitals
  of Basic Latin (A..Z) and of the Latin-1 Supplement (U+00C0..U+00DE without the
  multiplication sign U+00D7) move up by 0x20; G with breve (U+011E) and S with cedilla
  (U+015E) move to the next code unit. Every other code unit is left as it is: the case
  pairs of other scripts and the contextual rules of Unicode (combining dot above after
  I, which the runtime removes and so shortens the string; final sigma) are outside this
  model. It is exact on ASCII strings, which is what the evaluations below use; the
  statements about every string take the lowercasing as a parameter (\<open>normalize_with\<close>)
  or do not depend on what it computes.
\<close>

definition lowerCaseUnit_tr :: "jschar \<Rightarrow> jschar" where
  "lowerCaseUnit_tr c =
     (if c = 0x49 then 0x131
      else if c = 0x130 then 0x69
      else if 0x41 \<le> c \<and> c \<le> 0x5A then c + 0x20
      else if 0xC0 \<le> c \<and> c \<le> 0xDE \<and> c \<noteq> 0xD7 then c + 0x20
      else if c = 0x11E \<or> c = 0x15E then c + 1
      else c)"

definition toLocaleLowerCase_tr :: "jsstring \<Rightarrow> jsstring" where
  "toLocaleLowerCase_tr s = map lowerCaseUnit_tr s"

section \<open>normalize and isCorrect (App.js, lines 17-29)\<close>

text \<open>
  The character class of the first \<^verbatim>\<open>replace\<close> of \<^verbatim>\<open>normalize\<close>, in the order of the
  regular expression: \<^verbatim>\<open>. , / # ! $ % ^ & * ; : { } = - _ ` ~ ( )\<close>, then the apostrophe
  (U+0027) and the double quote (U+0022).
\<close>

definition punctuation :: "jschar list" where
  "punctuation =
     [0x2E, 0x2C, 0x2F, 0x23, 0x21, 0x24, 0x25, 0x5E, 0x26, 0x2A, 0x3B, 0x3A, 0x7B, 0x7D,
      0x3D, 0x2D, 0x5F, 0x60, 0x7E, 0x28, 0x29, 0x27, 0x22]"

text \<open>\<^verbatim>\<open>.replace(/[.,/#!$%^&*;:{}=\-_`~()'"]/g, ' ')\<close>: every match becomes one space.\<close>

definition replace_punct :: "jsstring \<Rightarrow> jsstring" where
  "replace_punct s = map (\<lambda>c. if c \<in> set punctuation then 0x20 else c) s"

text \<open>
  \<^verbatim>\<open>.replace(/\s+/g, ' ')\<close>: scanning from the left, each maximal run of white space
  (the match of the greedy \<^verbatim>\<open>\s+\<close>) becomes one space and the scan goes on after the run.
\<close>

function replace_ws :: "jsstring \<Rightarrow> jsstring" where
  "replace_ws [] = []"
| "replace_ws (c # cs) =
     (if isWhiteSpace c then 0x20 # replace_ws (dropWhile isWhiteSpace cs)
      else c # replace_ws cs)"
  by pat_completeness auto
termination
  by (relation "measure length") (auto simp: length_dropWhile_le less_Suc_eq_le)

text \<open>
  \<^verbatim>\<open>normalize(str)\<close>, here \<open>normalize_str\<close>. The argument is a string; \<^verbatim>\<open>(str || '')\<close> is the identity on
  strings (the empty string is the only falsy one).
\<close>

definition normalize_str :: "jsstring \<Rightarrow> jsstring" where
  "normalize_str str = trim (replace_ws (replace_punct (toLocaleLowerCase_tr str)))"

definition isCorrect :: "jsstring \<Rightarrow> jsstring \<Rightarrow> bool" where
  "isCorrect userAnswer truth =
     (let ua = normalize_str userAnswer;
          options = map normalize_str (split 0x7C truth)
      in list_ex (\<lambda>opt. length opt > 0 \<and> ua = opt) options)"

text \<open>
  The same two functions with the lowercasing built-in as a parameter \<open>lower\<close>: what
  \<^verbatim>\<open>normalize\<close> and \<^verbatim>\<open>isCorrect\<close> compute when \<^verbatim>\<open>toLocaleLowerCase('tr')\<close> is the function
  \<open>lower\<close>, whatever the runtime makes of it (contextual rules, every script).
\<close>

definition normalize_with :: "(jsstring \<Rightarrow> jsstring) \<Rightarrow> jsstring \<Rightarrow> jsstring" where
  "normalize_with lower str = trim (replace_ws (replace_punct (lower str)))"

definition isCorrect_with :: "(jsstring \<Rightarrow> jsstring) \<Rightarrow> jsstring \<Rightarrow> jsstring \<Rightarrow> bool" where
  "isCorrect_with lower userAnswer truth =
     (let ua = normalize_with lower userAnswer;
          options = map (normalize_with lower) (split 0x7C truth)
      in list_ex (\<lambda>opt. length opt > 0 \<and> ua = opt) options)"

section \<open>getHint (App.js, lines 31-42)\<close>

text \<open>
  The loop of \<^verbatim>\<open>getHint\<close>, with the loop variable \<open>i\<close> and the accumulated \<open>result\<close> as
  arguments. \<open>revealedCount\<close> is an integer.
\<close>

function getHint_loop :: "jsstring \<Rightarrow> int \<Rightarrow> nat \<Rightarrow> jsstring \<Rightarrow> jsstring" where
  "getHint_loop word revealedCount i result =
     (if i < length word
      then getHint_loop word revealedCount (i + 1)
             (if int i < revealedCount \<or> word ! i = 0x20
              then result @ [word ! i]
              else result @ [0x2E])
      else result)"
  by pat_completeness auto
termination
  by (relation "measure (\<lambda>(word, revealedCount, i, result). length word - i)") auto

declare getHint_loop.simps [simp del]

definition getHint :: "jsstring \<Rightarrow> int \<Rightarrow> jsstring" where
  "getHint word revealedCount = (if word = [] then [] else getHint_loop word revealedCount 0 [])"

section \<open>The state of the App component (App.js, lines 49-66)\<close>

text \<open>
  A record of the word bank (\<^verbatim>\<open>words.json\<close>) has the fields \<^verbatim>\<open>en\<close> and \<^verbatim>\<open>tr\<close>.
\<close>

record wordPair =
  en :: jsstring
  tr :: jsstring

record stats =
  correct :: nat
  wrong :: nat
  passed :: nat

datatype quizMode = en2tr | tr2en

text \<open>
  The values that the cursor \<^verbatim>\<open>idx\<close> takes: an integer, or \<^verbatim>\<open>NaN\<close> (the remainder of
  a division by the length 0).
\<close>

datatype jsnum = NaN | JInt int

text \<open>The state hooks of \<^verbatim>\<open>App\<close>, one field for each \<^verbatim>\<open>useState\<close>.\<close>

record app =
  orderedWords :: "wordPair list"
  idx :: jsnum
  answer :: jsstring
  revealed :: bool
  stats :: stats
  loaded :: bool
  quizMode :: quizMode
  hintCount :: nat

text \<open>\<^verbatim>\<open>x + 1\<close> and \<^verbatim>\<open>x % n\<close> for a length \<open>n\<close>: the remainder has the sign of \<open>x\<close>.\<close>

fun js_add1 :: "jsnum \<Rightarrow> jsnum" where
  "js_add1 NaN = NaN"
| "js_add1 (JInt k) = JInt (k + 1)"

fun js_rem :: "jsnum \<Rightarrow> nat \<Rightarrow> jsnum" where
  "js_rem NaN n = NaN"
| "js_rem (JInt k) n =
     (if n = 0 then NaN
      else if 0 \<le> k then JInt (k mod int n)
      else JInt (- ((- k) mod int n)))"

text \<open>
  \<^verbatim>\<open>a[i]\<close>: the element when \<open>i\<close> is an index of the array, \<^verbatim>\<open>undefined\<close> (here
  \<open>None\<close>) otherwise, also for a negative \<open>i\<close> and for \<^verbatim>\<open>NaN\<close>.
\<close>

fun at_index :: "'a list \<Rightarrow> jsnum \<Rightarrow> 'a option" where
  "at_index a NaN = None"
| "at_index a (JInt k) = (if 0 \<le> k \<and> k < int (length a) then Some (a ! nat k) else None)"

text \<open>
  \<^verbatim>\<open>Array.prototype.slice\<close>: a negative bound counts from the end, \<^verbatim>\<open>NaN\<close> is 0, and
  both bounds are clamped to the array.
\<close>

fun relative_index :: "nat \<Rightarrow> jsnum \<Rightarrow> nat" where
  "relative_index len NaN = 0"
| "relative_index len (JInt k) = (if k < 0 then nat (max (int len + k) 0) else min (nat k) len)"

definition slice :: "'a list \<Rightarrow> jsnum \<Rightarrow> jsnum \<Rightarrow> 'a list" where
  "slice a start end' =
     (let k = relative_index (length a) start;
          final = relative_index (length a) end'
      in take (final - k) (drop k a))"

definition slice_from :: "'a list \<Rightarrow> jsnum \<Rightarrow> 'a list" where
  "slice_from a start = drop (relative_index (length a) start) a"

text \<open>
  \<^verbatim>\<open>shuffle(array)\<close>, lines 8-15. \<^verbatim>\<open>Math.random\<close> is an input of the model: \<open>rnd i\<close>
  stands for the draw at loop index \<open>i\<close>, and \<^verbatim>\<open>Math.floor(Math.random() * (i + 1))\<close>,
  a number from 0 to \<open>i\<close>, is \<open>rnd i mod (i + 1)\<close>.
\<close>

fun shuffle_loop :: "(nat \<Rightarrow> nat) \<Rightarrow> nat \<Rightarrow> 'a list \<Rightarrow> 'a list" where
  "shuffle_loop rnd 0 a = a"
| "shuffle_loop rnd (Suc i) a =
     (let j = rnd (Suc i) mod (Suc i + 1)
      in shuffle_loop rnd i (a[Suc i := a ! j, j := a ! Suc i]))"

definition shuffle :: "(nat \<Rightarrow> nat) \<Rightarrow> 'a list \<Rightarrow> 'a list" where
  "shuffle rnd array = shuffle_loop rnd (length array - 1) array"

text \<open>Lines 60-64: the current item, with the placeholder for a missing one.\<close>

definition placeholder :: wordPair where
  "placeholder = \<lparr>en = js ''-'', tr = js ''-''\<rparr>"

definition current :: "app \<Rightarrow> wordPair" where
  "current s = (case at_index (orderedWords s) (idx s) of Some w \<Rightarrow> w | None \<Rightarrow> placeholder)"

definition correctAnswer :: "app \<Rightarrow> jsstring" where
  "correctAnswer s = (if quizMode s = en2tr then tr (current s) else en (current s))"

definition zero_stats :: stats where
  "zero_stats = \<lparr>correct = 0, wrong = 0, passed = 0\<rparr>"

text \<open>The initial values of the hooks (lines 50-57).\<close>

definition initial :: "(nat \<Rightarrow> nat) \<Rightarrow> wordPair list \<Rightarrow> app" where
  "initial rnd wordsData =
     \<lparr>orderedWords = shuffle rnd wordsData, idx = JInt 0, answer = [], revealed = False,
      stats = zero_stats, loaded = False, quizMode = en2tr, hintCount = 0\<rparr>"

section \<open>The handlers (App.js, lines 99-162 and 234-253)\<close>

definition goNext :: "app \<Rightarrow> app" where
  "goNext s =
     (let nextIdx = js_rem (js_add1 (idx s)) (length (orderedWords s))
      in s\<lparr>idx := nextIdx, revealed := False, answer := [], hintCount := 0\<rparr>)"

definition onSubmit :: "app \<Rightarrow> app" where
  "onSubmit s =
     (if trim (answer s) = [] then s
      else if isCorrect (answer s) (correctAnswer s)
      then goNext (s\<lparr>stats := (stats s)\<lparr>correct := correct (stats s) + 1\<rparr>\<rparr>)
      else s\<lparr>revealed := True, stats := (stats s)\<lparr>wrong := wrong (stats s) + 1\<rparr>\<rparr>)"

definition onPass :: "app \<Rightarrow> app" where
  "onPass s =
     (let w = current s;
          rest = slice (orderedWords s) (JInt 0) (idx s) @
                 slice_from (orderedWords s) (js_add1 (idx s));
          newOrder = rest @ [w]
      in s\<lparr>orderedWords := newOrder,
           stats := (stats s)\<lparr>passed := passed (stats s) + 1\<rparr>,
           revealed := False, answer := [], hintCount := 0\<rparr>)"

definition onReveal :: "app \<Rightarrow> app" where
  "onReveal s = s\<lparr>revealed := True\<rparr>"

definition onHint :: "app \<Rightarrow> app" where
  "onHint s = s\<lparr>hintCount := hintCount s + 1\<rparr>"

text \<open>The confirmed branch of \<^verbatim>\<open>onResetProgress\<close> (lines 149-158).\<close>

definition onResetProgress :: "(nat \<Rightarrow> nat) \<Rightarrow> wordPair list \<Rightarrow> app \<Rightarrow> app" where
  "onResetProgress rnd wordsData s =
     s\<lparr>orderedWords := shuffle rnd wordsData, idx := JInt 0, stats := zero_stats,
       answer := [], revealed := False, hintCount := 0\<rparr>"

text \<open>The two footer buttons with inline handlers (lines 234-253).\<close>

definition onShuffle :: "(nat \<Rightarrow> nat) \<Rightarrow> app \<Rightarrow> app" where
  "onShuffle rnd s =
     s\<lparr>orderedWords := shuffle rnd (orderedWords s), idx := JInt 0,
       answer := [], revealed := False, hintCount := 0\<rparr>"

definition onToggleMode :: "app \<Rightarrow> app" where
  "onToggleMode s =
     s\<lparr>quizMode := (if quizMode s = en2tr then tr2en else en2tr),
       answer := [], revealed := False, hintCount := 0\<rparr>"

section \<open>Loading the persisted state (App.js, lines 69-90)\<close>

text \<open>
  What \<^verbatim>\<open>AsyncStorage.getItem\<close> and \<^verbatim>\<open>JSON.parse\<close> deliver. The field
  \<^verbatim>\<open>orderedWords\<close> of the parsed object is falsy (absent, \<^verbatim>\<open>null\<close>), or a truthy value
  that is not an array, or an array of word records. \<^verbatim>\<open>idx\<close> is absent (or \<^verbatim>\<open>null\<close>) or
  an integer; \<^verbatim>\<open>stats\<close> and \<^verbatim>\<open>quizMode\<close> are absent or well-formed. A stored
  \<^verbatim>\<open>idx\<close> that is a number with a fraction, or no number at all, has no value in this
  model: every statement below about a stored cursor is about an integer.
\<close>

datatype orderField = OrderFalsy | OrderNotArray | OrderArray "wordPair list"

record snapshot =
  snap_orderedWords :: orderField
  snap_idx :: "int option"
  snap_stats :: "stats option"
  snap_quizMode :: "quizMode option"

text \<open>
  \<open>NoItem\<close>: nothing stored under the key (or the empty string). \<open>Unparsable\<close>:
  \<^verbatim>\<open>JSON.parse\<close> throws, or the parsed value is \<^verbatim>\<open>null\<close> and reading its field throws;
  the \<^verbatim>\<open>catch\<close> block logs and no setter has run.
\<close>

datatype stored = NoItem | Unparsable | Parsed snapshot

definition load :: "(nat \<Rightarrow> nat) \<Rightarrow> wordPair list \<Rightarrow> stored \<Rightarrow> app \<Rightarrow> app" where
  "load rnd wordsData item s =
     (case item of
        NoItem \<Rightarrow> s\<lparr>loaded := True\<rparr>
      | Unparsable \<Rightarrow> s\<lparr>loaded := True\<rparr>
      | Parsed parsed \<Rightarrow>
          (let restoredOrder =
                 (case snap_orderedWords parsed of
                    OrderFalsy \<Rightarrow> wordsData
                  | OrderNotArray \<Rightarrow> shuffle rnd wordsData
                  | OrderArray xs \<Rightarrow>
                      if length xs \<noteq> length wordsData then shuffle rnd wordsData else xs)
           in s\<lparr>orderedWords := restoredOrder,
                idx := JInt (min (case snap_idx parsed of None \<Rightarrow> 0 | Some k \<Rightarrow> k)
                                 (int (length restoredOrder) - 1)),
                stats := (case snap_stats parsed of None \<Rightarrow> zero_stats | Some st \<Rightarrow> st),
                quizMode := (case snap_quizMode parsed of None \<Rightarrow> en2tr | Some m \<Rightarrow> m),
                loaded := True\<rparr>))"

text \<open>
  Lines 93-97: the object that the save effect serialises. \<^verbatim>\<open>JSON.stringify\<close> writes
  \<^verbatim>\<open>NaN\<close> as \<^verbatim>\<open>null\<close>.
\<close>

definition toSave :: "app \<Rightarrow> snapshot" where
  "toSave s =
     \<lparr>snap_orderedWords = OrderArray (orderedWords s),
      snap_idx = (case idx s of NaN \<Rightarrow> None | JInt k \<Rightarrow> Some k),
      snap_stats = Some (stats s),
      snap_quizMode = Some (quizMode s)\<rparr>"

section \<open>Events\<close>

text \<open>
  One event for each handler that the component wires to the interface, with the
  random draws and the stored item that the handler consumes.
\<close>

datatype event =
    Submit | Pass | Next | Reveal | Hint | ChangeText jsstring | ToggleMode
  | ResetProgress "nat \<Rightarrow> nat" | Shuffle "nat \<Rightarrow> nat" | Load "nat \<Rightarrow> nat" stored

fun step :: "wordPair list \<Rightarrow> app \<Rightarrow> event \<Rightarrow> app" where
  "step wordsData s Submit = onSubmit s"
| "step wordsData s Pass = onPass s"
| "step wordsData s Next = goNext s"
| "step wordsData s Reveal = onReveal s"
| "step wordsData s Hint = onHint s"
| "step wordsData s (ChangeText text) = s\<lparr>answer := text\<rparr>"
| "step wordsData s ToggleMode = onToggleMode s"
| "step wordsData s (ResetProgress rnd) = onResetProgress rnd wordsData s"
| "step wordsData s (Shuffle rnd) = onShuffle rnd s"
| "step wordsData s (Load rnd item) = load rnd wordsData item s"

definition run :: "wordPair list \<Rightarrow> app \<Rightarrow> event list \<Rightarrow> app" where
  "run wordsData s events = foldl (step wordsData) s events"

section \<open>The normalization as the specification words it\<close>

text \<open>
  The specification's normalization, for comparison with \<open>normalize_str\<close>: the fixed
  punctuation set as the specification lists it, every member replaced by one space;
  runs of white space collapsed to one space; white space trimmed at both ends. Its
  lowercasing is the same built-in.
\<close>

definition spec_punctuation :: "jschar list" where
  "spec_punctuation = js ''.,/#!$%^&*;:{}=-_`~()'' @ [0x27, 0x22]"

fun spec_collapse :: "jsstring \<Rightarrow> jsstring" where
  "spec_collapse [] = []"
| "spec_collapse [c] = [if isWhiteSpace c then 0x20 else c]"
| "spec_collapse (c # d # cs) =
     (if isWhiteSpace c \<and> isWhiteSpace d then spec_collapse (d # cs)
      else (if isWhiteSpace c then 0x20 else c) # spec_collapse (d # cs))"

fun strip_trailing :: "jsstring \<Rightarrow> jsstring" where
  "strip_trailing [] = []"
| "strip_trailing (c # cs) =
     (if list_all isWhiteSpace (c # cs) then [] else c # strip_trailing cs)"

definition spec_trim :: "jsstring \<Rightarrow> jsstring" where
  "spec_trim s = strip_trailing (dropWhile isWhiteSpace s)"

definition spec_normalize :: "jsstring \<Rightarrow> jsstring" where
  "spec_normalize s =
     spec_trim (spec_collapse
       (map (\<lambda>c. if c \<in> set spec_punctuation then 0x20 else c) (toLocaleLowerCase_tr s)))"

text \<open>
  A string in which white space is collapsed: every white-space code unit is a space
  and no two of them are adjacent.
\<close>

fun ws_collapsed :: "jsstring \<Rightarrow> bool" where
  "ws_collapsed [] = True"
| "ws_collapsed [c] = (\<not> isWhiteSpace c \<or> c = 0x20)"
| "ws_collapsed (c # d # cs) =
     ((\<not> isWhiteSpace c \<or> (c = 0x20 \<and> \<not> isWhiteSpace d)) \<and> ws_collapsed (d # cs))"

section \<open>Predicates of the claims about the scheduler\<close>

text \<open>
  The cursor is an index of the order: an integer from 0 up to, not including, the
  length.
\<close>

fun valid_index :: "'a list \<Rightarrow> jsnum \<Rightarrow> bool" where
  "valid_index a NaN = False"
| "valid_index a (JInt k) = (0 \<le> k \<and> k < int (length a))"

definition cursor_in_range :: "app \<Rightarrow> bool" where
  "cursor_in_range s = valid_index (orderedWords s) (idx s)"

text \<open>
  A stored snapshot whose cursor is absent or a non-negative integer, and a stored snapshot whose
  order, when it is an array of the word bank's length, is a permutation of the word
  bank. Every other event satisfies both.
\<close>

definition snapshot_idx_ok :: "event \<Rightarrow> bool" where
  "snapshot_idx_ok e =
     (case e of
        Load rnd (Parsed parsed) \<Rightarrow> (case snap_idx parsed of None \<Rightarrow> True | Some k \<Rightarrow> 0 \<le> k)
      | _ \<Rightarrow> True)"

definition snapshot_order_ok :: "wordPair list \<Rightarrow> event \<Rightarrow> bool" where
  "snapshot_order_ok wordsData e =
     (case e of
        Load rnd (Parsed parsed) \<Rightarrow>
          (case snap_orderedWords parsed of
             OrderArray xs \<Rightarrow> length xs \<noteq> length wordsData \<or> mset xs = mset wordsData
           | _ \<Rightarrow> True)
      | _ \<Rightarrow> True)"

text \<open>
  The validation of line 76 rejects the restored order: it is not an array, or its
  length is not the length of the word bank.
\<close>

definition order_rejected :: "wordPair list \<Rightarrow> snapshot \<Rightarrow> bool" where
  "order_rejected wordsData parsed =
     (case snap_orderedWords parsed of
        OrderFalsy \<Rightarrow> False
      | OrderNotArray \<Rightarrow> True
      | OrderArray xs \<Rightarrow> length xs \<noteq> length wordsData)"

text \<open>Example data: three records of a word bank, and the draws that are all 0.\<close>

definition w_apple :: wordPair where
  "w_apple = \<lparr>en = js ''apple'', tr = js ''elma''\<rparr>"

definition w_book :: wordPair where
  "w_book = \<lparr>en = js ''book'', tr = js ''kitap''\<rparr>"

definition w_pen :: wordPair where
  "w_pen = \<lparr>en = js ''pen'', tr = js ''kalem''\<rparr>"

definition draws0 :: "nat \<Rightarrow> nat" where
  "draws0 i = 0"

text \<open>
  Example sessions: the initial session over a bank of two words with the answer \<open>a\<close>
  typed in, and a session with a given order and cursor.
\<close>

definition typed :: "jsstring \<Rightarrow> app" where
  "typed a = (initial draws0 [w_apple, w_book])\<lparr>answer := a\<rparr>"

definition at_cursor :: "wordPair list \<Rightarrow> int \<Rightarrow> app" where
  "at_cursor order k =
     \<lparr>orderedWords = order, idx = JInt k, answer = [], revealed = False,
      stats = zero_stats, loaded = True, quizMode = en2tr, hintCount = 0\<rparr>"

section \<open>Evaluation of the string functions\<close>

lemma js_simps [simp]:
  "js [] = []"
  "js (c # cs) = of_char c # js cs"
  by (simp_all add: js_def)

lemmas matcher_defs =
  isCorrect_def normalize_str_def trim_def replace_punct_def punctuation_def
  toLocaleLowerCase_tr_def lowerCaseUnit_tr_def isWhiteSpace_def

section \<open>C9: the four results of the matcher\<close>

text \<open>
  C9, as stated, has \<^verbatim>\<open>isCorrect("el ma", "elma")\<close> true. The code gives false: the
  space inside the answer stays, and \<^verbatim>\<open>"el ma"\<close> is not \<^verbatim>\<open>"elma"\<close>.
\<close>

theorem isCorrect_el_ma_counterexample:
  "isCorrect (js ''el ma'') (js ''elma'') = False"
  by (simp add: matcher_defs)

text \<open>
  C9, amended: \<^verbatim>\<open>isCorrect("Elma", "elma|elma.")\<close> is true, \<^verbatim>\<open>isCorrect("el ma", "elma")\<close>
  is false, \<^verbatim>\<open>isCorrect(" Kitap ", "kitap")\<close> is true and
  \<^verbatim>\<open>isCorrect("kitaplar", "kitap")\<close> is false.
\<close>

theorem isCorrect_examples:
  "isCorrect (js ''Elma'') (js ''elma|elma.'') = True \<and>
   isCorrect (js ''el ma'') (js ''elma'') = False \<and>
   isCorrect (js '' Kitap '') (js ''kitap'') = True \<and>
   isCorrect (js ''kitaplar'') (js ''kitap'') = False"
  by (simp add: matcher_defs)

section \<open>C6: the hint mask\<close>

lemma getHint_loop_eq:
  "i \<le> length word \<Longrightarrow>
   getHint_loop word revealedCount i result =
     result @ map (\<lambda>k. if int k < revealedCount \<or> word ! k = 0x20 then word ! k else 0x2E)
                [i..<length word]"
proof (induction word revealedCount i result rule: getHint_loop.induct)
  case (1 word revealedCount i result)
  show ?case
  proof (cases "i < length word")
    case True
    then have "[i..<length word] = i # [i + 1..<length word]"
      by (simp add: upt_conv_Cons)
    with True 1 show ?thesis
      by (subst getHint_loop.simps) simp
  next
    case False
    with 1 show ?thesis
      by (subst getHint_loop.simps) simp
  qed
qed

lemma getHint_eq:
  "getHint word revealedCount =
     map (\<lambda>k. if int k < revealedCount \<or> word ! k = 0x20 then word ! k else 0x2E)
       [0..<length word]"
  by (simp add: getHint_def getHint_loop_eq)

text \<open>
  C6: \<open>getHint word revealedCount\<close> has the length of \<open>word\<close>; its code unit at index
  \<open>i\<close> is that of \<open>word\<close> when \<open>i < revealedCount\<close> or the code unit is a space, and a
  full stop otherwise; \<^verbatim>\<open>getHint("kalem", 2)\<close> is \<^verbatim>\<open>"ka..."\<close> and
  \<^verbatim>\<open>getHint("iki kere", 1)\<close> is \<^verbatim>\<open>"i.. ...."\<close>.
\<close>

theorem getHint_mask:
  "length (getHint word revealedCount) = length word \<and>
   (\<forall>i < length word.
      getHint word revealedCount ! i =
        (if int i < revealedCount \<or> word ! i = 0x20 then word ! i else 0x2E)) \<and>
   getHint (js ''kalem'') 2 = js ''ka...'' \<and>
   getHint (js ''iki kere'') 1 = js ''i.. ....''"
proof -
  have ex1: "getHint (js ''kalem'') 2 = js ''ka...''"
    by (simp add: getHint_def getHint_loop.simps)
  have ex2: "getHint (js ''iki kere'') 1 = js ''i.. ....''"
    by (simp add: getHint_def getHint_loop.simps)
  show ?thesis
    by (simp add: getHint_eq ex1 ex2)
qed

theorem getHint_mask_witness:
  "length (getHint (js ''a b'') 1) = 3 \<and>
   (2::nat) < length (js ''a b'') \<and>
   getHint (js ''a b'') 1 ! 0 = 0x61 \<and>
   getHint (js ''a b'') 1 ! 1 = 0x20 \<and>
   getHint (js ''a b'') 1 ! 2 = 0x2E"
  using getHint_mask [of "js ''a b''" 1] by simp

section \<open>C1: isCorrect against the specification's normalization\<close>

lemma spec_punctuation_eq: "spec_punctuation = punctuation"
  by (simp add: spec_punctuation_def punctuation_def)

lemma spec_collapse_eq: "spec_collapse s = replace_ws s"
  by (induction s rule: spec_collapse.induct) auto

lemma strip_trailing_eq: "strip_trailing s = rev (dropWhile isWhiteSpace (rev s))"
  by (induction s) (auto simp: dropWhile_append list_all_iff)

lemma spec_trim_eq: "spec_trim s = trim s"
  by (simp add: spec_trim_def trim_def strip_trailing_eq)

lemma spec_normalize_eq: "spec_normalize s = normalize_str s"
  by (simp add: spec_normalize_def normalize_str_def spec_trim_eq spec_collapse_eq
      spec_punctuation_eq replace_punct_def)

text \<open>
  C1: \<open>isCorrect userAnswer truth\<close> is true exactly when the normalized answer equals
  the normalization of some variant of \<open>truth\<close> (split at the vertical bar, U+007C)
  whose normalization is not empty, for the normalization of the specification:
  Turkish lowercasing, the fixed punctuation set replaced by spaces, runs of white space
  collapsed to one space, both ends trimmed.
\<close>

theorem isCorrect_iff:
  "isCorrect userAnswer truth \<longleftrightarrow>
     (\<exists>variant \<in> set (split 0x7C truth).
        spec_normalize variant \<noteq> [] \<and> spec_normalize userAnswer = spec_normalize variant)"
  by (auto simp: isCorrect_def Let_def list_ex_iff spec_normalize_eq)

theorem isCorrect_iff_witness:
  "isCorrect (js ''ELMA!'') (js ''|armut|elma'') \<and>
   js ''elma'' \<in> set (split 0x7C (js ''|armut|elma'')) \<and>
   spec_normalize (js ''ELMA!'') = js ''elma'' \<and>
   \<not> isCorrect (js '' '') (js ''|armut|elma'')"
  using isCorrect_iff [of "js ''ELMA!''" "js ''|armut|elma''"]
    isCorrect_iff [of "js '' ''" "js ''|armut|elma''"]
  by (simp add: spec_normalize_eq matcher_defs)

section \<open>C10: normalize is idempotent\<close>

lemma lowerCaseUnit_tr_idem: "lowerCaseUnit_tr (lowerCaseUnit_tr c) = lowerCaseUnit_tr c"
  unfolding lowerCaseUnit_tr_def by auto

lemma lowerCaseUnit_tr_space: "lowerCaseUnit_tr 0x20 = 0x20"
  by (simp add: lowerCaseUnit_tr_def)

lemma set_replace_ws: "set (replace_ws s) \<subseteq> insert 0x20 (set s)"
proof (induction s rule: replace_ws.induct)
  case 1
  show ?case by simp
next
  case (2 c cs)
  show ?case
  proof (cases "isWhiteSpace c")
    case True
    have "set (dropWhile isWhiteSpace cs) \<subseteq> set cs"
      by (auto dest: set_dropWhileD)
    with True 2(1) show ?thesis by auto
  next
    case False
    with 2(2) show ?thesis by auto
  qed
qed

lemma set_trim: "set (trim s) \<subseteq> set s"
  by (auto simp: trim_def dest!: set_dropWhileD)

lemma ws_collapsed_Cons_nonws:
  "\<not> isWhiteSpace c \<Longrightarrow> ws_collapsed (c # s) = ws_collapsed s"
  by (cases s) simp_all

lemma replace_ws_nonws_head:
  "s = [] \<or> \<not> isWhiteSpace (hd s) \<Longrightarrow> replace_ws s = [] \<or> \<not> isWhiteSpace (hd (replace_ws s))"
  by (cases s) auto

lemma ws_collapsed_space_Cons:
  "s = [] \<or> \<not> isWhiteSpace (hd s) \<Longrightarrow> ws_collapsed (0x20 # s) = ws_collapsed s"
  by (cases s) (auto simp: ws_collapsed_Cons_nonws)

lemma ws_collapsed_replace_ws: "ws_collapsed (replace_ws s)"
proof (induction s rule: replace_ws.induct)
  case 1
  show ?case by simp
next
  case (2 c cs)
  show ?case
  proof (cases "isWhiteSpace c")
    case True
    have "dropWhile isWhiteSpace cs = [] \<or> \<not> isWhiteSpace (hd (dropWhile isWhiteSpace cs))"
      using hd_dropWhile [of isWhiteSpace cs] by blast
    then have "replace_ws (dropWhile isWhiteSpace cs) = []
        \<or> \<not> isWhiteSpace (hd (replace_ws (dropWhile isWhiteSpace cs)))"
      by (rule replace_ws_nonws_head)
    with True 2(1) show ?thesis
      by (simp add: ws_collapsed_space_Cons)
  next
    case False
    with 2(2) show ?thesis by (simp add: ws_collapsed_Cons_nonws)
  qed
qed

lemma replace_ws_fixed: "ws_collapsed s \<Longrightarrow> replace_ws s = s"
  by (induction s rule: ws_collapsed.induct) auto

lemma ws_collapsed_append: "ws_collapsed (xs @ ys) \<Longrightarrow> ws_collapsed xs \<and> ws_collapsed ys"
proof (induction xs rule: ws_collapsed.induct)
  case 1
  then show ?case by simp
next
  case (2 c)
  then show ?case by (cases ys) auto
next
  case (3 c d cs)
  then show ?case by auto
qed

lemma trim_infix: "\<exists>a b. s = a @ trim s @ b"
proof -
  let ?y = "dropWhile isWhiteSpace s"
  have "s = takeWhile isWhiteSpace s @ ?y" by simp
  moreover have "rev ?y = takeWhile isWhiteSpace (rev ?y) @ dropWhile isWhiteSpace (rev ?y)"
    by simp
  then have "?y = trim s @ rev (takeWhile isWhiteSpace (rev ?y))"
    unfolding trim_def by (metis rev_append rev_rev_ident)
  ultimately have "s = takeWhile isWhiteSpace s @ trim s @ rev (takeWhile isWhiteSpace (rev ?y))"
    by simp
  then show ?thesis by blast
qed

lemma ws_collapsed_trim: "ws_collapsed s \<Longrightarrow> ws_collapsed (trim s)"
proof -
  assume a: "ws_collapsed s"
  obtain a' b where "s = a' @ trim s @ b" using trim_infix by blast
  with a have "ws_collapsed (a' @ trim s @ b)" by simp
  then show ?thesis using ws_collapsed_append by blast
qed

lemma trim_fixed:
  "s = [] \<or> (\<not> isWhiteSpace (hd s) \<and> \<not> isWhiteSpace (last s)) \<Longrightarrow> trim s = s"
proof (cases "s = []")
  case True
  then show ?thesis by (simp add: trim_def)
next
  case False
  assume "s = [] \<or> (\<not> isWhiteSpace (hd s) \<and> \<not> isWhiteSpace (last s))"
  with False have h: "\<not> isWhiteSpace (hd s)" and l: "\<not> isWhiteSpace (last s)" by auto
  from False h have 1: "dropWhile isWhiteSpace s = s" by (cases s) auto
  from False l have 2: "dropWhile isWhiteSpace (rev s) = rev s"
    by (cases "rev s") (auto simp: last_rev hd_rev dest: arg_cong [where f = hd])
  show ?thesis by (simp add: trim_def 1 2)
qed

lemma trim_ends:
  "trim s = [] \<or> (\<not> isWhiteSpace (hd (trim s)) \<and> \<not> isWhiteSpace (last (trim s)))"
proof (cases "trim s = []")
  case True
  then show ?thesis by simp
next
  case False
  define y where "y = dropWhile isWhiteSpace s"
  define z where "z = dropWhile isWhiteSpace (rev y)"
  have t: "trim s = rev z" by (simp add: trim_def y_def z_def)
  with False have z: "z \<noteq> []" by simp
  have y: "y \<noteq> []"
  proof
    assume "y = []"
    then have "z = []" by (simp add: z_def)
    with z show False by simp
  qed
  have "\<not> isWhiteSpace (hd z)" using z hd_dropWhile unfolding z_def by blast
  moreover have "rev y = takeWhile isWhiteSpace (rev y) @ z" by (simp add: z_def)
  then have "last (rev y) = last z" using z by (metis last_appendR)
  then have "last z = hd y" using y by (simp add: last_rev)
  moreover have "\<not> isWhiteSpace (hd y)" using y hd_dropWhile unfolding y_def by blast
  ultimately show ?thesis using z by (simp add: t hd_rev last_rev)
qed

lemma normalize_str_units:
  "c \<in> set (normalize_str s) \<Longrightarrow> lowerCaseUnit_tr c = c \<and> c \<notin> set punctuation"
proof -
  assume "c \<in> set (normalize_str s)"
  then have "c \<in> set (replace_ws (replace_punct (toLocaleLowerCase_tr s)))"
    unfolding normalize_str_def using set_trim by blast
  then have "c = 0x20 \<or> c \<in> set (replace_punct (toLocaleLowerCase_tr s))"
    using set_replace_ws by blast
  then show ?thesis
  proof
    assume "c = 0x20"
    then show ?thesis by (simp add: lowerCaseUnit_tr_space punctuation_def)
  next
    assume "c \<in> set (replace_punct (toLocaleLowerCase_tr s))"
    then obtain d where d: "d \<in> set s"
      and c: "c = (if lowerCaseUnit_tr d \<in> set punctuation then 0x20 else lowerCaseUnit_tr d)"
      by (auto simp: replace_punct_def toLocaleLowerCase_tr_def)
    show ?thesis
    proof (cases "lowerCaseUnit_tr d \<in> set punctuation")
      case True
      with c show ?thesis by (simp add: lowerCaseUnit_tr_space punctuation_def)
    next
      case False
      with c show ?thesis by (simp add: lowerCaseUnit_tr_idem)
    qed
  qed
qed

lemma normalize_str_fixed:
  assumes "\<forall>c \<in> set t. lowerCaseUnit_tr c = c \<and> c \<notin> set punctuation"
    and "ws_collapsed t"
    and "t = [] \<or> (\<not> isWhiteSpace (hd t) \<and> \<not> isWhiteSpace (last t))"
  shows "normalize_str t = t"
proof -
  have "toLocaleLowerCase_tr t = t"
    unfolding toLocaleLowerCase_tr_def using assms(1) by (simp add: map_idI)
  moreover have "replace_punct t = t"
    unfolding replace_punct_def using assms(1) by (simp add: map_idI)
  moreover have "replace_ws t = t" using assms(2) by (rule replace_ws_fixed)
  moreover have "trim t = t" using assms(3) by (rule trim_fixed)
  ultimately show ?thesis by (simp add: normalize_str_def)
qed

lemma normalize_str_normalize_str: "normalize_str (normalize_str s) = normalize_str s"
proof (rule normalize_str_fixed)
  show "\<forall>c \<in> set (normalize_str s). lowerCaseUnit_tr c = c \<and> c \<notin> set punctuation"
    using normalize_str_units by blast
  show "ws_collapsed (normalize_str s)"
    unfolding normalize_str_def by (rule ws_collapsed_trim) (rule ws_collapsed_replace_ws)
  show "normalize_str s = [] \<or>
    (\<not> isWhiteSpace (hd (normalize_str s)) \<and> \<not> isWhiteSpace (last (normalize_str s)))"
    unfolding normalize_str_def by (rule trim_ends)
qed

text \<open>
  The three clean-up steps of \<open>normalize_str\<close> are idempotent by themselves, whatever
  string the lowercasing has delivered: the function is idempotent for every lowercasing
  that leaves the cleaned-up string as it is.
\<close>

lemma cleanup_idempotent:
  "trim (replace_ws (replace_punct (trim (replace_ws (replace_punct x))))) =
   trim (replace_ws (replace_punct x))"
proof -
  define t where "t = trim (replace_ws (replace_punct x))"
  have "c \<notin> set punctuation" if "c \<in> set t" for c
  proof -
    from that have "c \<in> set (replace_ws (replace_punct x))"
      unfolding t_def using set_trim by blast
    then have "c = 0x20 \<or> c \<in> set (replace_punct x)"
      using set_replace_ws by blast
    then show ?thesis
      by (auto simp: replace_punct_def punctuation_def)
  qed
  then have "replace_punct t = t"
    unfolding replace_punct_def by (simp add: map_idI)
  moreover have "ws_collapsed t"
    unfolding t_def by (rule ws_collapsed_trim) (rule ws_collapsed_replace_ws)
  then have "replace_ws t = t" by (rule replace_ws_fixed)
  moreover have "trim t = t"
    unfolding t_def by (rule trim_fixed) (rule trim_ends)
  ultimately show ?thesis by (simp add: t_def)
qed

lemma normalize_str_with: "normalize_str = normalize_with toLocaleLowerCase_tr"
  by (rule ext) (simp add: normalize_str_def normalize_with_def)

lemma isCorrect_with_model: "isCorrect = isCorrect_with toLocaleLowerCase_tr"
  by (intro ext) (simp add: isCorrect_def isCorrect_with_def normalize_str_with)

text \<open>
  The model of the built-in of this file leaves every normalized string unchanged.
\<close>

lemma toLocaleLowerCase_tr_normalized:
  "toLocaleLowerCase_tr (normalize_str s) = normalize_str s"
  unfolding toLocaleLowerCase_tr_def using normalize_str_units [of _ s] by (simp add: map_idI)

lemma normalize_with_fixed:
  assumes "lower (normalize_with lower s) = normalize_with lower s"
  shows "normalize_with lower (normalize_with lower s) = normalize_with lower s"
proof -
  have "normalize_with lower (normalize_with lower s) =
      trim (replace_ws (replace_punct (normalize_with lower s)))"
    by (simp add: normalize_with_def [of lower "normalize_with lower s"] assms)
  also have "\<dots> = normalize_with lower s"
    unfolding normalize_with_def by (rule cleanup_idempotent)
  finally show ?thesis .
qed

text \<open>
  C10: for every lowercasing \<open>lower\<close> in the place of the built-in
  \<^verbatim>\<open>toLocaleLowerCase('tr')\<close> and every string \<open>s\<close> whose normalization the lowercasing
  leaves unchanged, normalizing the normalized string changes nothing; and when the
  lowercasing leaves the normalized answer unchanged, \<open>isCorrect\<close> gives the same verdict
  for the answer and for its normalization.
\<close>

theorem normalize_with_idempotent:
  assumes "lower (normalize_with lower s) = normalize_with lower s"
    and "lower (normalize_with lower userAnswer) = normalize_with lower userAnswer"
  shows "normalize_with lower (normalize_with lower s) = normalize_with lower s \<and>
         isCorrect_with lower (normalize_with lower userAnswer) truth =
           isCorrect_with lower userAnswer truth"
  using normalize_with_fixed [OF assms(1)] normalize_with_fixed [OF assms(2)]
  by (simp add: isCorrect_with_def)

theorem normalize_with_idempotent_witness:
  "toLocaleLowerCase_tr (normalize_with toLocaleLowerCase_tr (js ''  El-Ma,  I ''))
     = normalize_with toLocaleLowerCase_tr (js ''  El-Ma,  I '') \<and>
   toLocaleLowerCase_tr (normalize_with toLocaleLowerCase_tr (js ''ELMA!''))
     = normalize_with toLocaleLowerCase_tr (js ''ELMA!'') \<and>
   normalize_with toLocaleLowerCase_tr (js ''  El-Ma,  I '') = js ''el ma '' @ [0x131] \<and>
   normalize_with toLocaleLowerCase_tr
     (normalize_with toLocaleLowerCase_tr (js ''  El-Ma,  I '')) = js ''el ma '' @ [0x131] \<and>
   isCorrect_with toLocaleLowerCase_tr
     (normalize_with toLocaleLowerCase_tr (js ''ELMA!'')) (js ''armut|elma'') =
   isCorrect_with toLocaleLowerCase_tr (js ''ELMA!'') (js ''armut|elma'') \<and>
   isCorrect_with toLocaleLowerCase_tr (js ''ELMA!'') (js ''armut|elma'')"
proof -
  have n1: "normalize_with toLocaleLowerCase_tr (js ''  El-Ma,  I '') = js ''el ma '' @ [0x131]"
    and n2: "normalize_with toLocaleLowerCase_tr (js ''ELMA!'') = js ''elma''"
    by (simp_all add: normalize_with_def trim_def replace_punct_def punctuation_def
        toLocaleLowerCase_tr_def lowerCaseUnit_tr_def isWhiteSpace_def)
  have l1: "toLocaleLowerCase_tr (js ''el ma '' @ [0x131]) = js ''el ma '' @ [0x131]"
    and l2: "toLocaleLowerCase_tr (js ''elma'') = js ''elma''"
    by (simp_all add: toLocaleLowerCase_tr_def lowerCaseUnit_tr_def)
  have c: "isCorrect_with toLocaleLowerCase_tr (js ''ELMA!'') (js ''armut|elma'')"
    by (simp add: isCorrect_with_def normalize_with_def trim_def replace_punct_def
        punctuation_def toLocaleLowerCase_tr_def lowerCaseUnit_tr_def isWhiteSpace_def)
  show ?thesis
    using normalize_with_idempotent [of toLocaleLowerCase_tr "js ''  El-Ma,  I ''"
        "js ''ELMA!''" "js ''armut|elma''"] c
    unfolding n1 n2 l1 l2 by simp
qed

section \<open>The scheduler: shuffle, pass and the cursor\<close>

lemma shuffle_loop_mset:
  "i < length a \<or> i = 0 \<Longrightarrow> mset (shuffle_loop rnd i a) = mset a"
proof (induction i arbitrary: a)
  case 0
  show ?case by simp
next
  case (Suc i)
  define j where "j = rnd (Suc i) mod (Suc i + 1)"
  have i: "Suc i < length a" using Suc.prems by simp
  have "j < Suc (Suc i)" by (simp add: j_def)
  with i have j: "j < length a" by simp
  have "mset (a[Suc i := a ! j, j := a ! Suc i]) = mset a"
    using mset_swap [OF j i] .
  moreover have "i < length (a[Suc i := a ! j, j := a ! Suc i])" using i by simp
  ultimately show ?case using Suc.IH [of "a[Suc i := a ! j, j := a ! Suc i]"]
    by (simp add: j_def Let_def)
qed

lemma mset_shuffle: "mset (shuffle rnd a) = mset a"
  unfolding shuffle_def by (rule shuffle_loop_mset) (cases a, auto)

lemma length_shuffle: "length (shuffle rnd a) = length a"
  using mset_shuffle [of rnd a] by (metis size_mset)

lemma valid_index_cases:
  "valid_index a i \<longleftrightarrow> (\<exists>c. i = JInt (int c) \<and> c < length a)"
proof (cases i)
  case NaN
  then show ?thesis by simp
next
  case (JInt k)
  show ?thesis
  proof
    assume "valid_index a i"
    with JInt have "i = JInt (int (nat k)) \<and> nat k < length a" by auto
    then show "\<exists>c. i = JInt (int c) \<and> c < length a" by blast
  next
    assume "\<exists>c. i = JInt (int c) \<and> c < length a"
    then show "valid_index a i" by auto
  qed
qed

lemma onPass_order:
  assumes "idx s = JInt (int c)" and "c < length (orderedWords s)"
  shows "orderedWords (onPass s) =
           take c (orderedWords s) @ drop (Suc c) (orderedWords s) @ [orderedWords s ! c]"
proof -
  have "nat (int c + 1) = Suc c" by simp
  with assms show ?thesis
    by (simp add: onPass_def current_def slice_def slice_from_def Let_def min_def)
qed

lemma onPass_mset:
  assumes "cursor_in_range s"
  shows "mset (orderedWords (onPass s)) = mset (orderedWords s)"
proof -
  from assms obtain c where c: "idx s = JInt (int c)" "c < length (orderedWords s)"
    unfolding cursor_in_range_def valid_index_cases by blast
  define xs where "xs = orderedWords s"
  have "mset (take c xs @ drop (Suc c) xs @ [xs ! c]) = mset (take c xs @ xs ! c # drop (Suc c) xs)"
    by simp
  also have "take c xs @ xs ! c # drop (Suc c) xs = xs"
    using id_take_nth_drop [of c xs] c(2) by (simp add: xs_def)
  finally show ?thesis by (simp add: onPass_order [OF c] xs_def)
qed


lemma load_length:
  "length (orderedWords (load rnd wordsData (Parsed parsed) s)) = length wordsData"
  by (simp add: load_def Let_def length_shuffle split: orderField.splits)

lemma goNext_in_range:
  assumes "cursor_in_range s"
  shows "cursor_in_range (goNext s)"
proof -
  from assms obtain c where c: "idx s = JInt (int c)" "c < length (orderedWords s)"
    unfolding cursor_in_range_def valid_index_cases by blast
  from c(2) have "orderedWords s \<noteq> []" by auto
  with c show ?thesis
    by (auto simp add: cursor_in_range_def goNext_def Let_def)
qed

lemma valid_index_length:
  "length a = length b \<Longrightarrow> valid_index a i = valid_index b i"
  by (cases i) simp_all

lemma onPass_in_range:
  assumes "cursor_in_range s"
  shows "cursor_in_range (onPass s)"
proof -
  have "length (orderedWords (onPass s)) = length (orderedWords s)"
    using onPass_mset [OF assms] by (metis size_mset)
  moreover have "idx (onPass s) = idx s" by (simp add: onPass_def Let_def)
  ultimately show ?thesis
    using assms valid_index_length [of "orderedWords (onPass s)" "orderedWords s" "idx s"]
    by (simp add: cursor_in_range_def)
qed

lemma onSubmit_in_range: "cursor_in_range s \<Longrightarrow> cursor_in_range (onSubmit s)"
proof -
  assume a: "cursor_in_range s"
  then have "cursor_in_range (s\<lparr>stats := (stats s)\<lparr>correct := correct (stats s) + 1\<rparr>\<rparr>)"
    by (simp add: cursor_in_range_def)
  then have "cursor_in_range (goNext (s\<lparr>stats := (stats s)\<lparr>correct := correct (stats s) + 1\<rparr>\<rparr>))"
    by (rule goNext_in_range)
  with a show ?thesis by (simp add: onSubmit_def cursor_in_range_def)
qed

lemma load_in_range:
  assumes "wordsData \<noteq> []" and "cursor_in_range s" and "snapshot_idx_ok (Load rnd item)"
  shows "cursor_in_range (load rnd wordsData item s)"
proof (cases item)
  case NoItem
  with assms show ?thesis by (simp add: load_def cursor_in_range_def)
next
  case Unparsable
  with assms show ?thesis by (simp add: load_def cursor_in_range_def)
next
  case (Parsed parsed)
  have len: "length (orderedWords (load rnd wordsData (Parsed parsed) s)) = length wordsData"
    by (rule load_length)
  have "0 < length wordsData" using assms(1) by simp
  moreover have "0 \<le> (case snap_idx parsed of None \<Rightarrow> 0 | Some k \<Rightarrow> k)"
    using assms(3) Parsed by (simp add: snapshot_idx_ok_def split: option.splits)
  moreover have "idx (load rnd wordsData (Parsed parsed) s) =
      JInt (min (case snap_idx parsed of None \<Rightarrow> 0 | Some k \<Rightarrow> k) (int (length wordsData) - 1))"
    using len by (simp add: load_def Let_def)
  ultimately show ?thesis using len Parsed by (simp add: cursor_in_range_def)
qed

lemma step_in_range:
  assumes "wordsData \<noteq> []" and "cursor_in_range s" and "snapshot_idx_ok e"
  shows "cursor_in_range (step wordsData s e)"
proof (cases e)
  case Submit
  with assms show ?thesis by (simp add: onSubmit_in_range)
next
  case Pass
  with assms show ?thesis by (simp add: onPass_in_range)
next
  case Next
  with assms show ?thesis by (simp add: goNext_in_range)
next
  case Reveal
  with assms show ?thesis by (simp add: onReveal_def cursor_in_range_def)
next
  case Hint
  with assms show ?thesis by (simp add: onHint_def cursor_in_range_def)
next
  case (ChangeText input)
  with assms show ?thesis by (simp add: cursor_in_range_def)
next
  case ToggleMode
  with assms show ?thesis by (simp add: onToggleMode_def cursor_in_range_def)
next
  case (ResetProgress rnd)
  with assms show ?thesis by (simp add: onResetProgress_def cursor_in_range_def length_shuffle)
next
  case (Shuffle rnd)
  with assms show ?thesis
    by (cases "idx s") (auto simp add: onShuffle_def cursor_in_range_def length_shuffle)
next
  case (Load rnd item)
  with assms show ?thesis by (simp add: load_in_range)
qed

lemma load_mset:
  assumes "mset (orderedWords s) = mset wordsData" and "snapshot_order_ok wordsData (Load rnd item)"
  shows "mset (orderedWords (load rnd wordsData item s)) = mset wordsData"
  using assms
  by (auto simp: load_def Let_def snapshot_order_ok_def mset_shuffle
      split: stored.splits orderField.splits)

lemma step_mset:
  assumes "mset (orderedWords s) = mset wordsData" and "cursor_in_range s"
    and "snapshot_order_ok wordsData e"
  shows "mset (orderedWords (step wordsData s e)) = mset wordsData"
proof (cases e)
  case Submit
  with assms show ?thesis by (simp add: onSubmit_def goNext_def Let_def)
next
  case Pass
  with assms show ?thesis by (simp add: onPass_mset)
next
  case Next
  with assms show ?thesis by (simp add: goNext_def Let_def)
next
  case Reveal
  with assms show ?thesis by (simp add: onReveal_def)
next
  case Hint
  with assms show ?thesis by (simp add: onHint_def)
next
  case (ChangeText input)
  with assms show ?thesis by simp
next
  case ToggleMode
  with assms show ?thesis by (simp add: onToggleMode_def)
next
  case (ResetProgress rnd)
  with assms show ?thesis by (simp add: onResetProgress_def mset_shuffle)
next
  case (Shuffle rnd)
  with assms show ?thesis by (simp add: onShuffle_def mset_shuffle)
next
  case (Load rnd item)
  with assms show ?thesis by (simp add: load_mset)
qed

lemma run_invariant:
  assumes "wordsData \<noteq> []"
    and "mset (orderedWords s) = mset wordsData" and "cursor_in_range s"
    and "list_all (\<lambda>e. snapshot_order_ok wordsData e \<and> snapshot_idx_ok e) events"
  shows "mset (orderedWords (run wordsData s events)) = mset wordsData \<and>
         cursor_in_range (run wordsData s events)"
  using assms(2-4)
proof (induction events arbitrary: s)
  case Nil
  then show ?case by (simp add: run_def)
next
  case (Cons e events)
  have "mset (orderedWords (step wordsData s e)) = mset wordsData"
    using Cons.prems by (simp add: step_mset)
  moreover have "cursor_in_range (step wordsData s e)"
    using Cons.prems assms(1) by (simp add: step_in_range)
  ultimately show ?case using Cons.IH [of "step wordsData s e"] Cons.prems(3)
    by (simp add: run_def)
qed

lemma initial_invariant:
  "wordsData \<noteq> [] \<Longrightarrow>
   mset (orderedWords (initial rnd wordsData)) = mset wordsData \<and>
   cursor_in_range (initial rnd wordsData)"
  by (simp add: initial_def mset_shuffle cursor_in_range_def length_shuffle)


lemmas example_defs = w_apple_def w_book_def w_pen_def draws0_def

lemma shuffle2: "shuffle draws0 [a, b] = [b, a]"
  by (simp add: shuffle_def draws0_def)

text \<open>
  A snapshot that a session saved qualifies for both predicates, when the order of the
  session is a permutation of the word bank and its cursor is an index of the order.
\<close>

lemma saved_snapshot_ok:
  assumes "mset (orderedWords s) = mset wordsData" and "cursor_in_range s"
  shows "snapshot_order_ok wordsData (Load rnd (Parsed (toSave s))) \<and>
         snapshot_idx_ok (Load rnd (Parsed (toSave s)))"
proof -
  from assms(2) obtain c where "idx s = JInt (int c)"
    unfolding cursor_in_range_def valid_index_cases by blast
  with assms(1) show ?thesis
    by (simp add: snapshot_order_ok_def snapshot_idx_ok_def toSave_def)
qed

section \<open>C8: the cursor stays an index of the order\<close>

lemma goNext_idx:
  "idx s = JInt (int c) \<Longrightarrow> c < length (orderedWords s) \<Longrightarrow>
   idx (goNext s) = JInt (int (Suc c mod length (orderedWords s)))"
  by (auto simp add: goNext_def Let_def zmod_int add.commute)

text \<open>
  C8, as stated, covers a restore with any integer in the snapshot's cursor field. The
  code bounds the restored cursor from above only (\<^verbatim>\<open>Math.min\<close> with the last index): a
  snapshot with cursor -1 and a well-formed order of the bank's length leaves the cursor
  at -1, which is no index of the order.
\<close>

theorem cursor_in_range_counterexample:
  "cursor_in_range (initial draws0 [w_apple, w_book]) \<and>
   idx (load draws0 [w_apple, w_book]
         (Parsed \<lparr>snap_orderedWords = OrderArray [w_book, w_apple],
            snap_idx = Some (- 1), snap_stats = None, snap_quizMode = None\<rparr>)
         (initial draws0 [w_apple, w_book])) = JInt (- 1) \<and>
   \<not> cursor_in_range (load draws0 [w_apple, w_book]
         (Parsed \<lparr>snap_orderedWords = OrderArray [w_book, w_apple],
            snap_idx = Some (- 1), snap_stats = None, snap_quizMode = None\<rparr>)
         (initial draws0 [w_apple, w_book]))"
  by (simp add: cursor_in_range_def initial_def load_def shuffle2)

text \<open>
  C8, amended: for a word bank that is not empty, a session whose cursor is an index of
  its order keeps this property under every operation (submit, pass, next, reveal,
  hint, typing, mode switch, reset, reshuffle, load), where a loaded snapshot has a
  cursor field that is absent or a non-negative integer; and \<open>goNext\<close> moves the
  cursor \<open>c\<close> to
  \<open>(c + 1) mod length\<close>.
\<close>

theorem cursor_stays_in_range:
  assumes "wordsData \<noteq> []" and "cursor_in_range s" and "snapshot_idx_ok e"
  shows "cursor_in_range (step wordsData s e) \<and>
         (\<exists>c < length (orderedWords s).
            idx s = JInt (int c) \<and>
            idx (goNext s) = JInt (int (Suc c mod length (orderedWords s))))"
proof -
  from assms(2) obtain c where c: "idx s = JInt (int c)" "c < length (orderedWords s)"
    unfolding cursor_in_range_def valid_index_cases by blast
  then have "idx (goNext s) = JInt (int (Suc c mod length (orderedWords s)))"
    by (rule goNext_idx)
  with c step_in_range [OF assms] show ?thesis by blast
qed

theorem cursor_stays_in_range_witness:
  "[w_apple, w_book] \<noteq> [] \<and>
   cursor_in_range (goNext (initial draws0 [w_apple, w_book])) \<and>
   snapshot_idx_ok (Load draws0 (Parsed \<lparr>snap_orderedWords = OrderNotArray,
      snap_idx = Some 7, snap_stats = None, snap_quizMode = None\<rparr>)) \<and>
   idx (goNext (initial draws0 [w_apple, w_book])) = JInt 1 \<and>
   idx (goNext (goNext (initial draws0 [w_apple, w_book]))) = JInt 0 \<and>
   idx (step [w_apple, w_book] (goNext (initial draws0 [w_apple, w_book]))
      (Load draws0 (Parsed \<lparr>snap_orderedWords = OrderNotArray,
         snap_idx = Some 7, snap_stats = None, snap_quizMode = None\<rparr>))) = JInt 1 \<and>
   cursor_in_range (step [w_apple, w_book] (goNext (initial draws0 [w_apple, w_book]))
      (Load draws0 (Parsed \<lparr>snap_orderedWords = OrderNotArray,
         snap_idx = Some 7, snap_stats = None, snap_quizMode = None\<rparr>)))"
  using cursor_stays_in_range [of "[w_apple, w_book]" "goNext (initial draws0 [w_apple, w_book])"
      "Load draws0 (Parsed \<lparr>snap_orderedWords = OrderNotArray,
         snap_idx = Some 7, snap_stats = None, snap_quizMode = None\<rparr>)"]
  by (simp add: snapshot_idx_ok_def cursor_in_range_def initial_def goNext_def Let_def
      load_def shuffle2)

section \<open>C2: the order stays a permutation of the word bank\<close>

text \<open>
  C2, as stated, covers a restore from any snapshot. The code accepts a stored order
  when it is an array of the bank's length, whatever its elements: the bank of apple
  and book restores the stored order apple, apple. And a stored cursor of -1 is kept, so
  that the next pass copies the order: \<^verbatim>\<open>slice(0, -1)\<close> and \<^verbatim>\<open>slice(0)\<close> and the
  placeholder make four items from apple, book.
\<close>

theorem order_permutation_counterexample:
  "mset (orderedWords (run [w_apple, w_book] (initial draws0 [w_apple, w_book])
     [Load draws0 (Parsed \<lparr>snap_orderedWords = OrderArray [w_apple, w_apple],
        snap_idx = None, snap_stats = None, snap_quizMode = None\<rparr>)]))
     \<noteq> mset [w_apple, w_book] \<and>
   mset (orderedWords (run [w_apple, w_book] (initial draws0 [w_apple, w_book])
     [Load draws0 (Parsed \<lparr>snap_orderedWords = OrderArray [w_apple, w_book],
        snap_idx = Some (- 1), snap_stats = None, snap_quizMode = None\<rparr>), Pass]))
     \<noteq> mset [w_apple, w_book]"
  by (simp add: run_def load_def onPass_def current_def slice_def slice_from_def Let_def
      example_defs placeholder_def)

text \<open>
  C2, amended: for every word bank of size at least 1, after any sequence of operations
  from the initial session (next, pass, reshuffle, load, and also submit, reveal, hint,
  typing, mode switch and reset), the order is a permutation of the word bank, provided
  every loaded snapshot has an order that the validation rejects or that is a permutation
  of the word bank, and a cursor field that is absent or a non-negative integer.
\<close>

theorem order_stays_permutation:
  assumes "wordsData \<noteq> []"
    and "list_all (\<lambda>e. snapshot_order_ok wordsData e \<and> snapshot_idx_ok e) events"
  shows "mset (orderedWords (run wordsData (initial rnd wordsData) events)) = mset wordsData"
  using run_invariant [OF assms(1) _ _ assms(2)] initial_invariant [OF assms(1)] by blast

theorem order_stays_permutation_witness:
  "[w_apple, w_book, w_pen] \<noteq> [] \<and>
   list_all (\<lambda>e. snapshot_order_ok [w_apple, w_book, w_pen] e \<and> snapshot_idx_ok e)
     [Pass, Next, Shuffle draws0,
      Load draws0 (Parsed \<lparr>snap_orderedWords = OrderArray [w_pen, w_apple, w_book],
        snap_idx = Some 2, snap_stats = None, snap_quizMode = None\<rparr>),
      Load draws0 (Parsed \<lparr>snap_orderedWords = OrderArray [w_pen, w_pen],
        snap_idx = None, snap_stats = None, snap_quizMode = None\<rparr>),
      Pass] \<and>
   mset (orderedWords (run [w_apple, w_book, w_pen] (initial draws0 [w_apple, w_book, w_pen])
     [Pass, Next, Shuffle draws0,
      Load draws0 (Parsed \<lparr>snap_orderedWords = OrderArray [w_pen, w_apple, w_book],
        snap_idx = Some 2, snap_stats = None, snap_quizMode = None\<rparr>),
      Load draws0 (Parsed \<lparr>snap_orderedWords = OrderArray [w_pen, w_pen],
        snap_idx = None, snap_stats = None, snap_quizMode = None\<rparr>),
      Pass])) = mset [w_apple, w_book, w_pen]"
  using order_stays_permutation [of "[w_apple, w_book, w_pen]"
     "[Pass, Next, Shuffle draws0,
      Load draws0 (Parsed \<lparr>snap_orderedWords = OrderArray [w_pen, w_apple, w_book],
        snap_idx = Some 2, snap_stats = None, snap_quizMode = None\<rparr>),
      Load draws0 (Parsed \<lparr>snap_orderedWords = OrderArray [w_pen, w_pen],
        snap_idx = None, snap_stats = None, snap_quizMode = None\<rparr>),
      Pass]" draws0]
  by (simp add: snapshot_order_ok_def snapshot_idx_ok_def)

section \<open>C5: loading a snapshot whose order is rejected\<close>

text \<open>
  C5, as stated, has the counters reset to zero. The code replaces the order only: the
  counters of the snapshot are restored.
\<close>

theorem load_resets_stats_counterexample:
  "order_rejected [w_apple, w_book]
     \<lparr>snap_orderedWords = OrderArray [w_pen], snap_idx = None,
      snap_stats = Some \<lparr>correct = 3, wrong = 1, passed = 2\<rparr>, snap_quizMode = None\<rparr> \<and>
   stats (load draws0 [w_apple, w_book]
     (Parsed \<lparr>snap_orderedWords = OrderArray [w_pen], snap_idx = None,
      snap_stats = Some \<lparr>correct = 3, wrong = 1, passed = 2\<rparr>, snap_quizMode = None\<rparr>)
     (initial draws0 [w_apple, w_book])) = \<lparr>correct = 3, wrong = 1, passed = 2\<rparr> \<and>
   stats (load draws0 [w_apple, w_book]
     (Parsed \<lparr>snap_orderedWords = OrderArray [w_pen], snap_idx = None,
      snap_stats = Some \<lparr>correct = 3, wrong = 1, passed = 2\<rparr>, snap_quizMode = None\<rparr>)
     (initial draws0 [w_apple, w_book])) \<noteq> zero_stats"
  by (simp add: order_rejected_def load_def zero_stats_def Let_def)

text \<open>
  C5, amended: when the restored order is not an array or its length differs from the
  size of the word bank, loading replaces the order by a fresh shuffle of the word bank
  (a permutation of it); the counters and the mode are those of the snapshot (zero and
  \<open>en2tr\<close> when it has none), and the cursor is the snapshot's (0 when it has none),
  bounded above by the last index.
\<close>

theorem load_rejected_order:
  assumes "order_rejected wordsData parsed"
  shows "orderedWords (load rnd wordsData (Parsed parsed) s) = shuffle rnd wordsData \<and>
         mset (orderedWords (load rnd wordsData (Parsed parsed) s)) = mset wordsData \<and>
         stats (load rnd wordsData (Parsed parsed) s) =
           (case snap_stats parsed of None \<Rightarrow> zero_stats | Some st \<Rightarrow> st) \<and>
         quizMode (load rnd wordsData (Parsed parsed) s) =
           (case snap_quizMode parsed of None \<Rightarrow> en2tr | Some m \<Rightarrow> m) \<and>
         idx (load rnd wordsData (Parsed parsed) s) =
           JInt (min (case snap_idx parsed of None \<Rightarrow> 0 | Some k \<Rightarrow> k)
                     (int (length wordsData) - 1))"
proof -
  have order: "orderedWords (load rnd wordsData (Parsed parsed) s) = shuffle rnd wordsData"
    using assms by (simp add: order_rejected_def load_def Let_def split: orderField.splits)
  moreover have "idx (load rnd wordsData (Parsed parsed) s) =
           JInt (min (case snap_idx parsed of None \<Rightarrow> 0 | Some k \<Rightarrow> k)
                     (int (length wordsData) - 1))"
    using load_length [of rnd wordsData parsed s] by (simp add: load_def Let_def)
  moreover have "stats (load rnd wordsData (Parsed parsed) s) =
           (case snap_stats parsed of None \<Rightarrow> zero_stats | Some st \<Rightarrow> st)"
    by (simp add: load_def Let_def)
  moreover have "quizMode (load rnd wordsData (Parsed parsed) s) =
           (case snap_quizMode parsed of None \<Rightarrow> en2tr | Some m \<Rightarrow> m)"
    by (simp add: load_def Let_def)
  ultimately show ?thesis by (simp add: mset_shuffle)
qed

theorem load_rejected_order_witness:
  "order_rejected [w_apple, w_book]
     \<lparr>snap_orderedWords = OrderArray [w_pen], snap_idx = Some 5,
      snap_stats = Some \<lparr>correct = 3, wrong = 1, passed = 2\<rparr>, snap_quizMode = Some tr2en\<rparr> \<and>
   orderedWords (load draws0 [w_apple, w_book]
     (Parsed \<lparr>snap_orderedWords = OrderArray [w_pen], snap_idx = Some 5,
      snap_stats = Some \<lparr>correct = 3, wrong = 1, passed = 2\<rparr>, snap_quizMode = Some tr2en\<rparr>)
     (initial draws0 [w_apple, w_book])) = [w_book, w_apple] \<and>
   stats (load draws0 [w_apple, w_book]
     (Parsed \<lparr>snap_orderedWords = OrderArray [w_pen], snap_idx = Some 5,
      snap_stats = Some \<lparr>correct = 3, wrong = 1, passed = 2\<rparr>, snap_quizMode = Some tr2en\<rparr>)
     (initial draws0 [w_apple, w_book])) = \<lparr>correct = 3, wrong = 1, passed = 2\<rparr> \<and>
   idx (load draws0 [w_apple, w_book]
     (Parsed \<lparr>snap_orderedWords = OrderArray [w_pen], snap_idx = Some 5,
      snap_stats = Some \<lparr>correct = 3, wrong = 1, passed = 2\<rparr>, snap_quizMode = Some tr2en\<rparr>)
     (initial draws0 [w_apple, w_book])) = JInt 1"
  using load_rejected_order [of "[w_apple, w_book]"
     "\<lparr>snap_orderedWords = OrderArray [w_pen], snap_idx = Some 5,
      snap_stats = Some \<lparr>correct = 3, wrong = 1, passed = 2\<rparr>, snap_quizMode = Some tr2en\<rparr>"
     draws0 "initial draws0 [w_apple, w_book]"]
  by (simp add: order_rejected_def shuffle2)

section \<open>C7: the handlers on an empty order\<close>

lemma normalize_str_dash: "normalize_str [0x2D] = []"
  by (simp add: matcher_defs)

lemma isCorrect_dash: "isCorrect userAnswer [0x2D] = False"
  by (simp add: isCorrect_def normalize_str_dash)

lemma correctAnswer_empty: "orderedWords s = [] \<Longrightarrow> correctAnswer s = [0x2D]"
  by (cases "idx s") (auto simp add: correctAnswer_def current_def placeholder_def)

text \<open>
  C7, as stated, has every operation a no-op on an empty order. Pass appends the
  placeholder to the order and counts a pass, and next sets the cursor to \<^verbatim>\<open>NaN\<close>.
\<close>

theorem empty_order_noop_counterexample:
  "orderedWords (initial draws0 []) = [] \<and>
   orderedWords (onPass (initial draws0 [])) \<noteq> orderedWords (initial draws0 []) \<and>
   stats (onPass (initial draws0 [])) \<noteq> stats (initial draws0 []) \<and>
   idx (goNext (initial draws0 [])) \<noteq> idx (initial draws0 [])"
  by (simp add: initial_def shuffle_def zero_stats_def onPass_def goNext_def Let_def
      slice_def slice_from_def)

text \<open>
  C7, amended: when the order is empty, the current item is the placeholder with
  \<^verbatim>\<open>'-'\<close> in both fields, and every handler returns a session: reveal and hint
  leave order, cursor and counters as they are; submit does nothing for a blank answer
  and otherwise counts the answer as wrong and reveals; pass makes the order the single
  placeholder and counts a pass; next sets the cursor to \<^verbatim>\<open>NaN\<close>.
\<close>

theorem empty_order_operations:
  assumes "orderedWords s = []"
  shows "current s = placeholder \<and>
         onReveal s = s\<lparr>revealed := True\<rparr> \<and>
         onHint s = s\<lparr>hintCount := hintCount s + 1\<rparr> \<and>
         onSubmit s =
           (if trim (answer s) = [] then s
            else s\<lparr>revealed := True, stats := (stats s)\<lparr>wrong := wrong (stats s) + 1\<rparr>\<rparr>) \<and>
         onPass s =
           s\<lparr>orderedWords := [placeholder],
             stats := (stats s)\<lparr>passed := passed (stats s) + 1\<rparr>,
             revealed := False, answer := [], hintCount := 0\<rparr> \<and>
         goNext s = s\<lparr>idx := NaN, revealed := False, answer := [], hintCount := 0\<rparr>"
proof -
  have cur: "current s = placeholder"
    using assms by (cases "idx s") (auto simp add: current_def)
  have sub: "onSubmit s =
           (if trim (answer s) = [] then s
            else s\<lparr>revealed := True, stats := (stats s)\<lparr>wrong := wrong (stats s) + 1\<rparr>\<rparr>)"
    using correctAnswer_empty [OF assms] by (simp add: onSubmit_def isCorrect_dash)
  have pass: "onPass s =
           s\<lparr>orderedWords := [placeholder],
             stats := (stats s)\<lparr>passed := passed (stats s) + 1\<rparr>,
             revealed := False, answer := [], hintCount := 0\<rparr>"
    using assms cur by (simp add: onPass_def slice_def slice_from_def Let_def)
  have nxt: "goNext s = s\<lparr>idx := NaN, revealed := False, answer := [], hintCount := 0\<rparr>"
    using assms by (cases "idx s") (simp_all add: goNext_def Let_def)
  show ?thesis
    using cur sub pass nxt by (simp add: onReveal_def onHint_def)
qed


theorem empty_order_operations_witness:
  "orderedWords ((initial draws0 [])\<lparr>answer := js ''elma''\<rparr>) = [] \<and>
   current ((initial draws0 [])\<lparr>answer := js ''elma''\<rparr>) = \<lparr>en = js ''-'', tr = js ''-''\<rparr> \<and>
   orderedWords (onPass ((initial draws0 [])\<lparr>answer := js ''elma''\<rparr>)) = [placeholder] \<and>
   passed (stats (onPass ((initial draws0 [])\<lparr>answer := js ''elma''\<rparr>))) = 1 \<and>
   idx (goNext ((initial draws0 [])\<lparr>answer := js ''elma''\<rparr>)) = NaN \<and>
   wrong (stats (onSubmit ((initial draws0 [])\<lparr>answer := js ''elma''\<rparr>))) = 1 \<and>
   revealed (onSubmit ((initial draws0 [])\<lparr>answer := js ''elma''\<rparr>)) = True"
  using empty_order_operations [of "(initial draws0 [])\<lparr>answer := js ''elma''\<rparr>"]
  by (simp add: initial_def shuffle_def zero_stats_def placeholder_def trim_def isWhiteSpace_def)

section \<open>C4: onSubmit\<close>

lemma trim_empty_iff: "trim a = [] \<longleftrightarrow> list_all isWhiteSpace a"
proof
  assume "trim a = []"
  then have "\<forall>x \<in> set (dropWhile isWhiteSpace a). isWhiteSpace x"
    by (simp add: trim_def dropWhile_eq_Nil_conv)
  then have "dropWhile isWhiteSpace a = []"
    using hd_dropWhile [of isWhiteSpace a] hd_in_set [of "dropWhile isWhiteSpace a"] by blast
  then show "list_all isWhiteSpace a"
    by (simp add: dropWhile_eq_Nil_conv list_all_iff)
next
  assume "list_all isWhiteSpace a"
  then have "dropWhile isWhiteSpace a = []"
    by (simp add: dropWhile_eq_Nil_conv list_all_iff)
  then show "trim a = []" by (simp only: trim_def rev.simps dropWhile.simps)
qed

lemma isCorrect_placeholder: "current s = placeholder \<Longrightarrow> \<not> isCorrect a (correctAnswer s)"
  by (simp add: correctAnswer_def placeholder_def isCorrect_dash)

lemma current_not_placeholder:
  "current s \<noteq> placeholder \<Longrightarrow> \<exists>c < length (orderedWords s). idx s = JInt (int c)"
proof -
  assume a: "current s \<noteq> placeholder"
  have "valid_index (orderedWords s) (idx s)"
  proof (cases "idx s")
    case NaN
    with a show ?thesis by (simp add: current_def)
  next
    case (JInt k)
    with a show ?thesis by (auto simp add: current_def split: if_splits)
  qed
  then show ?thesis unfolding valid_index_cases by blast
qed

text \<open>
  C4: in a session that is not revealed, submit with an answer of white space only
  (or empty) returns the session unchanged; with an answer that \<open>isCorrect\<close> accepts it
  adds 1 to \<open>correct\<close> and to no other counter, moves the cursor \<open>c\<close> to
  \<open>(c + 1) mod length\<close> and stays not revealed; with any other answer it adds 1 to
  \<open>wrong\<close> and to no other counter, sets \<open>revealed\<close> and leaves the cursor. The order is
  the same in all three cases.
\<close>

theorem onSubmit_answering:
  assumes "revealed s = False"
  shows "(list_all isWhiteSpace (answer s) \<longrightarrow> onSubmit s = s) \<and>
    (\<not> list_all isWhiteSpace (answer s) \<and> isCorrect (answer s) (correctAnswer s) \<longrightarrow>
       stats (onSubmit s) = (stats s)\<lparr>correct := correct (stats s) + 1\<rparr> \<and>
       orderedWords (onSubmit s) = orderedWords s \<and>
       (\<exists>c < length (orderedWords s).
          idx s = JInt (int c) \<and>
          idx (onSubmit s) = JInt (int (Suc c mod length (orderedWords s)))) \<and>
       revealed (onSubmit s) = False) \<and>
    (\<not> list_all isWhiteSpace (answer s) \<and> \<not> isCorrect (answer s) (correctAnswer s) \<longrightarrow>
       stats (onSubmit s) = (stats s)\<lparr>wrong := wrong (stats s) + 1\<rparr> \<and>
       orderedWords (onSubmit s) = orderedWords s \<and>
       idx (onSubmit s) = idx s \<and>
       revealed (onSubmit s) = True)"
proof (intro conjI impI)
  assume "list_all isWhiteSpace (answer s)"
  then show "onSubmit s = s" by (simp add: onSubmit_def trim_empty_iff)
next
  assume a: "\<not> list_all isWhiteSpace (answer s) \<and> isCorrect (answer s) (correctAnswer s)"
  then have eq: "onSubmit s = goNext (s\<lparr>stats := (stats s)\<lparr>correct := correct (stats s) + 1\<rparr>\<rparr>)"
    by (simp add: onSubmit_def trim_empty_iff)
  show "stats (onSubmit s) = (stats s)\<lparr>correct := correct (stats s) + 1\<rparr>"
    by (simp add: eq goNext_def Let_def)
  show "orderedWords (onSubmit s) = orderedWords s"
    by (simp add: eq goNext_def Let_def)
  show "revealed (onSubmit s) = False"
    by (simp add: eq goNext_def Let_def)
  from a have "current s \<noteq> placeholder" using isCorrect_placeholder by blast
  then obtain c where c: "c < length (orderedWords s)" "idx s = JInt (int c)"
    using current_not_placeholder by blast
  then have "idx (onSubmit s) = JInt (int (Suc c mod length (orderedWords s)))"
    unfolding eq by (simp add: goNext_idx)
  with c show "\<exists>c < length (orderedWords s).
          idx s = JInt (int c) \<and>
          idx (onSubmit s) = JInt (int (Suc c mod length (orderedWords s)))"
    by blast
next
  assume a: "\<not> list_all isWhiteSpace (answer s) \<and> \<not> isCorrect (answer s) (correctAnswer s)"
  then have eq: "onSubmit s =
      s\<lparr>revealed := True, stats := (stats s)\<lparr>wrong := wrong (stats s) + 1\<rparr>\<rparr>"
    by (simp add: onSubmit_def trim_empty_iff)
  show "stats (onSubmit s) = (stats s)\<lparr>wrong := wrong (stats s) + 1\<rparr>" by (simp add: eq)
  show "orderedWords (onSubmit s) = orderedWords s" by (simp add: eq)
  show "idx (onSubmit s) = idx s" by (simp add: eq)
  show "revealed (onSubmit s) = True" by (simp add: eq)
qed

theorem onSubmit_answering_witness:
  "revealed (typed (js ''  '')) = False \<and> list_all isWhiteSpace (answer (typed (js ''  ''))) \<and>
   onSubmit (typed (js ''  '')) = typed (js ''  '') \<and>
   revealed (typed (js '' Kitap '')) = False \<and>
   \<not> list_all isWhiteSpace (answer (typed (js '' Kitap ''))) \<and>
   isCorrect (answer (typed (js '' Kitap ''))) (correctAnswer (typed (js '' Kitap ''))) \<and>
   correct (stats (onSubmit (typed (js '' Kitap '')))) = 1 \<and>
   idx (typed (js '' Kitap '')) = JInt 0 \<and>
   idx (onSubmit (typed (js '' Kitap ''))) = JInt 1 \<and>
   revealed (onSubmit (typed (js '' Kitap ''))) = False \<and>
   revealed (typed (js ''kalem'')) = False \<and>
   \<not> list_all isWhiteSpace (answer (typed (js ''kalem''))) \<and>
   \<not> isCorrect (answer (typed (js ''kalem''))) (correctAnswer (typed (js ''kalem''))) \<and>
   wrong (stats (onSubmit (typed (js ''kalem'')))) = 1 \<and>
   idx (onSubmit (typed (js ''kalem''))) = JInt 0 \<and>
   revealed (onSubmit (typed (js ''kalem''))) = True"
proof -
  have s: "typed a = \<lparr>orderedWords = [w_book, w_apple], idx = JInt 0, answer = a,
      revealed = False, stats = zero_stats, loaded = False, quizMode = en2tr, hintCount = 0\<rparr>"
    for a
    by (simp add: typed_def initial_def shuffle2)
  have c: "correctAnswer (typed a) = js ''kitap''" for a
    by (simp add: s correctAnswer_def current_def w_book_def)
  have ok: "isCorrect (js '' Kitap '') (js ''kitap'')" and bad: "\<not> isCorrect (js ''kalem'') (js ''kitap'')"
    by (simp_all add: matcher_defs)
  have ws: "list_all isWhiteSpace (js ''  '')" "\<not> list_all isWhiteSpace (js '' Kitap '')"
    "\<not> list_all isWhiteSpace (js ''kalem'')"
    by (simp_all add: isWhiteSpace_def)
  have a: "answer (typed a) = a" "revealed (typed a) = False" "idx (typed a) = JInt 0"
    "stats (typed a) = zero_stats" "length (orderedWords (typed a)) = 2" for a
    by (simp_all add: s)
  show ?thesis
    using onSubmit_answering [of "typed (js ''  '')"]
      onSubmit_answering [of "typed (js '' Kitap '')"]
      onSubmit_answering [of "typed (js ''kalem'')"] ok bad ws
    unfolding a c
    by (simp add: zero_stats_def isWhiteSpace_def)
qed

section \<open>C3: pass, then next\<close>

lemma goNext_funpow_order: "orderedWords ((goNext ^^ k) s) = orderedWords s"
  by (induction k) (simp_all add: goNext_def Let_def)

lemma goNext_funpow_idx:
  assumes "idx s = JInt (int c)" and "c < length (orderedWords s)"
  shows "idx ((goNext ^^ k) s) = JInt (int ((c + k) mod length (orderedWords s)))"
proof (induction k)
  case 0
  with assms show ?case by simp
next
  case (Suc k)
  define m where "m = (c + k) mod length (orderedWords s)"
  from assms(2) have "0 < length (orderedWords s)" by auto
  then have m: "m < length (orderedWords ((goNext ^^ k) s))"
    by (simp add: m_def goNext_funpow_order)
  have "idx (goNext ((goNext ^^ k) s)) = JInt (int (Suc m mod length (orderedWords ((goNext ^^ k) s))))"
    using Suc m by (intro goNext_idx) (simp_all add: m_def)
  then show ?case
    by (simp add: goNext_funpow_order m_def mod_Suc_eq)
qed

lemma current_funpow:
  assumes "idx s = JInt (int c)" and "c < length (orderedWords s)"
  shows "current ((goNext ^^ k) s) = orderedWords s ! ((c + k) mod length (orderedWords s))"
proof -
  from assms(2) have "0 < length (orderedWords s)" by auto
  then have "(c + k) mod length (orderedWords s) < length (orderedWords s)"
    by simp
  then show ?thesis
    using goNext_funpow_idx [OF assms, of k]
    by (simp add: current_def goNext_funpow_order)
qed

text \<open>
  C3, as stated, has the cursor back on the deferred item after pass and \<open>n - 1\<close> calls
  of next, from every cursor position. From position 1 of apple, book, pen the two
  calls of next end on apple, not on the deferred book.
\<close>

theorem onPass_round_counterexample:
  "idx (at_cursor [w_apple, w_book, w_pen] 1) = JInt 1 \<and>
   current (at_cursor [w_apple, w_book, w_pen] 1) = w_book \<and>
   current ((goNext ^^ (length [w_apple, w_book, w_pen] - 1))
      (onPass (at_cursor [w_apple, w_book, w_pen] 1))) = w_apple \<and>
   w_apple \<noteq> w_book"
  by (simp add: at_cursor_def current_def onPass_def goNext_def slice_def slice_from_def
      Let_def numeral_2_eq_2 example_defs)

text \<open>
  C3, amended: for every order of length \<open>n\<close> and every cursor position \<open>c\<close> in it, after
  pass the next \<open>n - 1 - c\<close> calls of next visit the items that stood after the cursor,
  each once and in their order, and then the cursor is on the deferred item; after
  \<open>n - 1\<close> calls of next the cursor is on the deferred item when \<open>c = 0\<close> (having visited
  every other item once) and on the item that stood before the cursor otherwise.
\<close>

theorem onPass_then_goNext:
  assumes "idx s = JInt (int c)" and "c < length (orderedWords s)"
  shows "map (\<lambda>k. current ((goNext ^^ k) (onPass s))) [0..<length (orderedWords s) - 1 - c] =
           drop (Suc c) (orderedWords s) \<and>
         current ((goNext ^^ (length (orderedWords s) - 1 - c)) (onPass s)) = orderedWords s ! c \<and>
         current ((goNext ^^ (length (orderedWords s) - 1)) (onPass s)) =
           orderedWords s ! (if c = 0 then 0 else c - 1)"
proof -
  define a where "a = orderedWords s"
  define n where "n = length a"
  define a' where "a' = take c a @ drop (Suc c) a @ [a ! c]"
  have cn: "c < n" using assms(2) by (simp add: a_def n_def)
  have order: "orderedWords (onPass s) = a'"
    using onPass_order [OF assms] by (simp add: a'_def a_def)
  have len: "length a' = n" using cn by (simp add: a'_def n_def)
  have idx': "idx (onPass s) = JInt (int c)" using assms(1) by (simp add: onPass_def Let_def)
  have cur: "current ((goNext ^^ k) (onPass s)) = a' ! ((c + k) mod n)" for k
    using current_funpow [of "onPass s" c k] idx' cn by (simp add: order len)
  have mid: "a' ! (c + k) = a ! (Suc c + k)" if "c + k < n - 1" for k
    using that cn by (simp add: a'_def nth_append n_def)
  have last: "a' ! (n - 1) = a ! c"
    using cn by (simp add: a'_def nth_append n_def)
  have before: "a' ! (c - 1) = a ! (c - 1)" if "0 < c"
    using that cn by (simp add: a'_def nth_append n_def)
  have 1: "map (\<lambda>k. current ((goNext ^^ k) (onPass s))) [0..<n - 1 - c] = drop (Suc c) a"
  proof (rule nth_equalityI)
    show "length (map (\<lambda>k. current ((goNext ^^ k) (onPass s))) [0..<n - 1 - c]) =
        length (drop (Suc c) a)"
      by (simp add: n_def)
  next
    fix i assume "i < length (map (\<lambda>k. current ((goNext ^^ k) (onPass s))) [0..<n - 1 - c])"
    then have i: "c + i < n - 1" by simp
    then have "(c + i) mod n = c + i" by simp
    with i show "map (\<lambda>k. current ((goNext ^^ k) (onPass s))) [0..<n - 1 - c] ! i =
        drop (Suc c) a ! i"
      using mid [of i] by (simp add: cur n_def)
  qed
  have "(c + (n - 1 - c)) mod n = n - 1" using cn by simp
  then have 2: "current ((goNext ^^ (n - 1 - c)) (onPass s)) = a ! c"
    by (simp only: cur last)
  have 3: "current ((goNext ^^ (n - 1)) (onPass s)) = a ! (if c = 0 then 0 else c - 1)"
  proof (cases "c = 0")
    case True
    then have "(c + (n - 1)) mod n = n - 1" using cn by simp
    with True show ?thesis by (simp only: cur last) simp
  next
    case False
    then have e: "c + (n - 1) = (c - 1) + n" using cn by arith
    have "((c - 1) + n) mod n = c - 1" using cn by simp
    then have "(c + (n - 1)) mod n = c - 1" by (simp only: e)
    with False show ?thesis using before by (simp only: cur) simp
  qed
  from 1 2 3 show ?thesis by (simp add: a_def n_def)
qed

theorem onPass_then_goNext_witness:
  "idx (at_cursor [w_apple, w_book, w_pen] 1) = JInt (int 1) \<and>
   1 < length (orderedWords (at_cursor [w_apple, w_book, w_pen] 1)) \<and>
   map (\<lambda>k. current ((goNext ^^ k) (onPass (at_cursor [w_apple, w_book, w_pen] 1)))) [0..<1] =
     [w_pen] \<and>
   current ((goNext ^^ 1) (onPass (at_cursor [w_apple, w_book, w_pen] 1))) = w_book \<and>
   current ((goNext ^^ 2) (onPass (at_cursor [w_apple, w_book, w_pen] 1))) = w_apple"
  using onPass_then_goNext [of "at_cursor [w_apple, w_book, w_pen] 1" 1]
  by (simp add: at_cursor_def numeral_2_eq_2)

end
